theory Spec2Isabelle
  imports Main "HOL-Library.Sublist"
begin

section \<open>Text: Python strings as lists of code points\<close>

text \<open>
  A Python \<open>str\<close> is a sequence of Unicode code points, so a text is a list of
  natural numbers. \<open>u\<close> writes an ASCII literal; the letters of Portuguese outside ASCII
  are given by their code points (i with acute accent is 237, a with acute accent 225,
  c with cedilla 231, a with tilde 227).

  The character classes below follow the Unicode database that CPython ships. White
  space (\<open>str.split()\<close>, \<open>str.strip()\<close>) is the full list of CPython. Letter case
  (\<open>str.lower()\<close>, \<open>str.istitle()\<close>) is exact for U+0000 to U+00FF, the range of
  Portuguese text; a code point above U+00FF is taken as caseless.
\<close>

type_synonym ustr = "nat list"

definition u :: "string \<Rightarrow> ustr" where
  "u s = map of_char s"

definition isspace :: "nat \<Rightarrow> bool" where
  "isspace c \<longleftrightarrow>
     (9 \<le> c \<and> c \<le> 13) \<or> (28 \<le> c \<and> c \<le> 32) \<or> c = 133 \<or> c = 160 \<or> c = 5760 \<or>
     (8192 \<le> c \<and> c \<le> 8202) \<or> c = 8232 \<or> c = 8233 \<or> c = 8239 \<or> c = 8287 \<or> c = 12288"

definition isupper :: "nat \<Rightarrow> bool" where
  "isupper c \<longleftrightarrow> (65 \<le> c \<and> c \<le> 90) \<or> (192 \<le> c \<and> c \<le> 214) \<or> (216 \<le> c \<and> c \<le> 222)"

definition islower :: "nat \<Rightarrow> bool" where
  "islower c \<longleftrightarrow>
     (97 \<le> c \<and> c \<le> 122) \<or> c = 170 \<or> c = 181 \<or> c = 186 \<or>
     (223 \<le> c \<and> c \<le> 246) \<or> (248 \<le> c \<and> c \<le> 255)"

definition lower_cp :: "nat \<Rightarrow> nat" where
  "lower_cp c = (if isupper c then c + 32 else c)"

text \<open>\<open>s.lower()\<close>\<close>

definition lower :: "ustr \<Rightarrow> ustr" where
  "lower s = map lower_cp s"

text \<open>\<open>s.strip()\<close>\<close>

definition strip :: "ustr \<Rightarrow> ustr" where
  "strip s = rev (dropWhile isspace (rev (dropWhile isspace s)))"

text \<open>
  \<open>s.split()\<close>: the maximal runs of characters that are not white space. \<open>cur\<close> is
  the token being read.
\<close>

fun split_from :: "ustr \<Rightarrow> ustr \<Rightarrow> ustr list" where
  "split_from cur [] = (if cur = [] then [] else [cur])"
| "split_from cur (c # cs) =
     (if isspace c then (if cur = [] then split_from [] cs else cur # split_from [] cs)
      else split_from (cur @ [c]) cs)"

definition split :: "ustr \<Rightarrow> ustr list" where
  "split s = split_from [] s"

text \<open>\<open>s.split(d)\<close> for a one-character separator: every occurrence cuts, empty pieces stay.\<close>

fun split_sep :: "nat \<Rightarrow> ustr \<Rightarrow> ustr list" where
  "split_sep d [] = [[]]"
| "split_sep d (c # cs) =
     (if c = d then [] # split_sep d cs
      else (case split_sep d cs of [] \<Rightarrow> [[c]] | p # ps \<Rightarrow> (c # p) # ps))"

text \<open>\<open>sep.join(xs)\<close>\<close>

fun join :: "ustr \<Rightarrow> ustr list \<Rightarrow> ustr" where
  "join sep [] = []"
| "join sep [x] = x"
| "join sep (x # y # ys) = x @ sep @ join sep (y # ys)"

text \<open>
  \<open>w.istitle()\<close>, as CPython computes it: an uppercase character may only follow an
  uncased one, a lowercase character only a cased one, and there is at least one cased
  character.
\<close>

fun istitle_from :: "bool \<Rightarrow> bool \<Rightarrow> ustr \<Rightarrow> bool" where
  "istitle_from cased prev [] = cased"
| "istitle_from cased prev (c # cs) =
     (if isupper c then (if prev then False else istitle_from True True cs)
      else if islower c then (if prev then istitle_from True True cs else False)
      else istitle_from cased False cs)"

definition istitle :: "ustr \<Rightarrow> bool" where
  "istitle w = istitle_from False False w"

text \<open>
  \<open>k in t\<close> on strings is \<^const>\<open>sublist\<close>: \<open>t\<close> is \<open>ps @ k @ ss\<close> for some
  \<open>ps\<close> and \<open>ss\<close>. \<open>any(k in t for k in ks)\<close>:
\<close>

definition any_in :: "ustr list \<Rightarrow> ustr \<Rightarrow> bool" where
  "any_in ks t = list_ex (\<lambda>k. sublist k t) ks"

text \<open>
  \<open>list(dict.fromkeys(xs))\<close>: a key is inserted when the dictionary does not hold it
  yet, and a dictionary keeps its keys in insertion order.
\<close>

definition fromkeys :: "'a list \<Rightarrow> 'a list" where
  "fromkeys xs = foldl (\<lambda>d x. if x \<in> set d then d else d @ [x]) [] xs"

section \<open>The enrichment functions\<close>

subsection \<open>simple_summarize\<close>

text \<open>
  The LexRank summarizer of \<open>sumy\<close> is a capability outside the repository:
  \<open>lexrank text k\<close> is the list of sentences it selects, or \<open>None\<close> when the parser,
  the tokenizer or the summarizer raises.
\<close>

definition simple_summarize :: "(ustr \<Rightarrow> nat \<Rightarrow> ustr list option) \<Rightarrow> ustr \<Rightarrow> nat \<Rightarrow> ustr" where
  "simple_summarize lexrank text sentences_count =
     (if text = [] \<or> length (split text) < 30 then strip text
      else (case lexrank text sentences_count of
              Some summary \<Rightarrow> join (u '' '') summary
            | None \<Rightarrow> strip (join (u '' '') (take sentences_count (split_sep 46 text)))))"

subsection \<open>classify_by_keywords\<close>

definition lbl_homicidio :: ustr where
  "lbl_homicidio = u ''Homic'' @ [237] @ u ''dio''"

definition lbl_trafico :: ustr where
  "lbl_trafico = u ''Tr'' @ [225] @ u ''fico''"

definition lbl_operacao :: ustr where
  "lbl_operacao = u ''Opera'' @ [231, 227] @ u ''o Policial''"

definition lbl_roubo :: ustr where
  "lbl_roubo = u ''Roubo''"

definition lbl_outro :: ustr where
  "lbl_outro = u ''Outro''"

definition trig_homicidio :: "ustr list" where
  "trig_homicidio = [u ''homicid'', u ''morte'', u ''assassin'']"

definition trig_trafico :: "ustr list" where
  "trig_trafico = [u ''tr'' @ [225] @ u ''fico'', u ''trafic'', u ''droga'']"

definition trig_operacao :: "ustr list" where
  "trig_operacao =
     [u ''opera'' @ [231, 227] @ u ''o policial'', u ''opera'' @ [231, 227] @ u ''o'',
      u ''pol'' @ [237] @ u ''cia'', u ''policial'']"

definition trig_roubo :: "ustr list" where
  "trig_roubo = [u ''roubo'', u ''assalto'']"

definition classify_by_keywords :: "ustr \<Rightarrow> ustr list \<Rightarrow> ustr" where
  "classify_by_keywords text keywords =
     (let txt = lower text in
      if any_in trig_homicidio txt then lbl_homicidio
      else if any_in trig_trafico txt then lbl_trafico
      else if any_in trig_operacao txt then lbl_operacao
      else if any_in trig_roubo txt then lbl_roubo
      else lbl_outro)"

subsection \<open>extract_cities\<close>

definition extract_cities :: "ustr \<Rightarrow> ustr list \<Rightarrow> ustr list" where
  "extract_cities text cities =
     (let t = lower text;
          found = filter (\<lambda>c. sublist (lower c) t) cities
      in fromkeys found)"

subsection \<open>extract_names_heuristic\<close>

text \<open>
  The loop over \<open>i\<close> reads the words from the left. At a word that is title-cased and
  longer than two characters the inner loop over \<open>j\<close> takes the title-cased words that
  follow; with at least one of them the name is added and \<open>i\<close> jumps to \<open>j\<close>, else
  \<open>i\<close> moves by one. \<open>names_loop\<close> returns the names in the order the loop adds
  them; the source collects them in a \<open>set\<close>, whose order of iteration Python leaves
  open, so \<open>extract_names_heuristic\<close> lists each name once, in the order of first
  addition.
\<close>

function names_loop :: "ustr list \<Rightarrow> ustr list" where
  "names_loop [] = []"
| "names_loop (w # ws) =
     (if istitle w \<and> length w > 2 then
        (let name_parts = w # takeWhile istitle ws in
         if length name_parts \<ge> 2
         then join (u '' '') name_parts # names_loop (dropWhile istitle ws)
         else names_loop ws)
      else names_loop ws)"
  by pat_completeness auto
termination
  by (relation "measure length") (auto simp: length_dropWhile_le less_Suc_eq_le)

definition extract_names_heuristic :: "ustr \<Rightarrow> ustr list" where
  "extract_names_heuristic text = fromkeys (names_loop (split text))"

section \<open>The pipeline\<close>

subsection \<open>Configuration, feed entries and pages\<close>

text \<open>
  \<open>keywords.json\<close> as \<open>load_keywords\<close> finds it: absent, not JSON, or a document.
  A document is the dictionary \<open>json.load\<close> returns; \<open>main\<close> reads its fields
  \<open>keywords\<close> and \<open>cities\<close> with \<open>cfg.get(field, [])\<close>, so a field is a list of
  strings or absent (\<open>None\<close>).
\<close>

record config =
  cfg_keywords :: "ustr list option"
  cfg_cities :: "ustr list option"

datatype kw_file = NoFile | NotJSON | Document config

datatype error = FileNotFoundError | JSONDecodeError

text \<open>\<open>d.get(k, default)\<close> on a field that may be absent.\<close>

definition get_or :: "'a option \<Rightarrow> 'a \<Rightarrow> 'a" where
  "get_or v d = (case v of None \<Rightarrow> d | Some x \<Rightarrow> x)"

text \<open>A feed entry of \<open>feedparser\<close>, with the five fields \<open>main\<close> reads.\<close>

record entry =
  e_title :: "ustr option"
  e_link :: "ustr option"
  e_published :: "ustr option"
  e_summary :: "ustr option"
  e_description :: "ustr option"

text \<open>
  A fetched page after parsing: the texts of its \<open>p\<close> elements in document order, and
  the \<open>content\<close> of its \<open>meta name="description"\<close> element when there is one.
\<close>

record page =
  paragraphs :: "ustr list"
  meta_description :: "ustr option"

subsection \<open>The store\<close>

text \<open>
  A row of the table has the ten columns of the source. In the file every field is
  text. In a DataFrame a cell is a string or NaN: \<open>pandas.read_csv\<close> with its default
  arguments reads a field as NaN when it is empty or one of the tokens of
  \<open>na_values\<close>, and \<open>to_csv\<close> writes NaN as the empty field. (A column in which
  every field is a number is read as numbers; the model keeps the text of such a
  field. The column \<open>relevance\<close> is a number throughout.)
\<close>

record 'a row =
  r_title :: 'a
  r_link :: 'a
  r_published :: 'a
  r_fetched_at :: 'a
  r_summary :: 'a
  r_category :: 'a
  r_cities :: 'a
  r_names :: 'a
  r_relevance :: nat
  r_raw_text_snippet :: 'a

datatype cell = Str ustr | NaN

definition map_row :: "('a \<Rightarrow> 'b) \<Rightarrow> 'a row \<Rightarrow> 'b row" where
  "map_row f r =
     \<lparr>r_title = f (r_title r), r_link = f (r_link r), r_published = f (r_published r),
      r_fetched_at = f (r_fetched_at r), r_summary = f (r_summary r),
      r_category = f (r_category r), r_cities = f (r_cities r), r_names = f (r_names r),
      r_relevance = r_relevance r, r_raw_text_snippet = f (r_raw_text_snippet r)\<rparr>"

definition na_values :: "ustr list" where
  "na_values =
     [[], u ''#N/A'', u ''#N/A N/A'', u ''#NA'', u ''-1.#IND'', u ''-1.#QNAN'', u ''-NaN'',
      u ''-nan'', u ''1.#IND'', u ''1.#QNAN'', u ''<NA>'', u ''N/A'', u ''NA'', u ''NULL'',
      u ''NaN'', u ''None'', u ''n/a'', u ''nan'', u ''null'']"

definition read_field :: "ustr \<Rightarrow> cell" where
  "read_field s = (if s \<in> set na_values then NaN else Str s)"

fun write_cell :: "cell \<Rightarrow> ustr" where
  "write_cell (Str s) = s"
| "write_cell NaN = []"

text \<open>How an f-string prints a cell: a string as it is, NaN as \<open>nan\<close>.\<close>

fun format_cell :: "cell \<Rightarrow> ustr" where
  "format_cell (Str s) = s"
| "format_cell NaN = u ''nan''"

text \<open>\<open>noticias_paraiba.csv\<close>: absent, unreadable, or a table (its header and rows).\<close>

datatype csv_file = Missing | Unreadable | Table "ustr row list"

text \<open>A DataFrame is the list of its rows; \<open>df.empty\<close> is \<open>df = []\<close>.\<close>

definition load_existing_csv :: "csv_file \<Rightarrow> cell row list" where
  "load_existing_csv f =
     (case f of Missing \<Rightarrow> [] | Unreadable \<Rightarrow> [] | Table rs \<Rightarrow> map (map_row read_field) rs)"

definition save_csv :: "cell row list \<Rightarrow> ustr row list" where
  "save_csv df = map (map_row write_cell) df"

subsection \<open>The world of a run\<close>

text \<open>
  What a run reads from outside the program: the two files, and the capabilities it
  calls. \<open>requote_uri\<close> is the function of \<open>requests.utils\<close>; \<open>feedparser_parse\<close>
  gives the entries of the feed at a URL (none when the retrieval fails); \<open>http_get\<close>
  gives the parsed page at a URL, or \<open>None\<close> when the request or the parser raises;
  \<open>lexrank\<close> is the summarizer; \<open>utcnow n\<close> is the clock's ISO time when the run has
  accepted \<open>n\<close> rows. A run sees one snapshot of the network.
\<close>

record world =
  kw_file :: kw_file
  output_csv :: csv_file
  requote_uri :: "ustr \<Rightarrow> ustr"
  feedparser_parse :: "ustr \<Rightarrow> entry list"
  http_get :: "ustr \<Rightarrow> page option"
  lexrank :: "ustr \<Rightarrow> nat \<Rightarrow> ustr list option"
  utcnow :: "nat \<Rightarrow> ustr"

definition SEARCH_TOP :: nat where
  "SEARCH_TOP = 10"

definition load_keywords :: "world \<Rightarrow> error + config" where
  "load_keywords w =
     (case kw_file w of
        NoFile \<Rightarrow> Inl FileNotFoundError
      | NotJSON \<Rightarrow> Inl JSONDecodeError
      | Document cfg \<Rightarrow> Inr cfg)"

definition paraiba_acento :: ustr where
  "paraiba_acento = u ''para'' @ [237] @ u ''ba''"

definition paraiba :: ustr where
  "paraiba = u ''paraiba''"

definition build_google_news_rss :: "world \<Rightarrow> ustr \<Rightarrow> ustr" where
  "build_google_news_rss w query =
     (let q = requote_uri w (query @ u '' '' @ paraiba_acento)
      in u ''https://news.google.com/rss/search?q='' @ q @ u ''&hl=pt-BR&gl=BR&ceid=BR:pt-PT'')"

definition fetch_rss_entries :: "world \<Rightarrow> ustr \<Rightarrow> entry list" where
  "fetch_rss_entries w rss_url = feedparser_parse w rss_url"

definition extract_text_from_link :: "world \<Rightarrow> ustr \<Rightarrow> ustr" where
  "extract_text_from_link w url =
     (case http_get w url of
        None \<Rightarrow> []
      | Some soup \<Rightarrow>
          (let text = join [10] (paragraphs soup);
               text = (if length text < 200
                       then (case meta_description soup of
                               None \<Rightarrow> text
                             | Some content \<Rightarrow> if content \<noteq> [] then content else text)
                       else text)
           in strip text))"

subsection \<open>One feed entry\<close>

text \<open>
  The state of the two loops of \<open>main\<close>: the rows accepted so far, the keys seen, and
  (for the claims about what is fetched) the requests made so far, in order.
\<close>

datatype request = FeedRequest ustr | ArticleRequest ustr

record loop_state =
  rows :: "cell row list"
  seen_keys :: "ustr set"
  requests :: "request list"

definition entry_title :: "entry \<Rightarrow> ustr" where
  "entry_title e = get_or (e_title e) []"

definition entry_link :: "entry \<Rightarrow> ustr" where
  "entry_link e = get_or (e_link e) []"

definition entry_published :: "entry \<Rightarrow> ustr" where
  "entry_published e = get_or (e_published e) []"

text \<open>\<open>e.get("summary", "") or e.get("description", "")\<close>\<close>

definition summary_rss :: "entry \<Rightarrow> ustr" where
  "summary_rss e =
     (let s = get_or (e_summary e) [] in if s \<noteq> [] then s else get_or (e_description e) [])"

text \<open>\<open>f"{title}_{published}"\<close>\<close>

definition entry_key :: "entry \<Rightarrow> ustr" where
  "entry_key e = entry_title e @ u ''_'' @ entry_published e"

text \<open>The key of a row of the loaded table: \<open>f"{r.get('title','')}_{r.get('published','')}"\<close>\<close>

definition row_key :: "cell row \<Rightarrow> ustr" where
  "row_key r = format_cell (r_title r) @ u ''_'' @ format_cell (r_published r)"

text \<open>The text of the link, or the summary of the feed when that text is empty.\<close>

definition article_text_of :: "world \<Rightarrow> entry \<Rightarrow> ustr" where
  "article_text_of w e =
     (let article_text = extract_text_from_link w (entry_link e)
      in if article_text = [] then summary_rss e else article_text)"

text \<open>\<open>sum(1 for k in keywords if k.lower() in lower)\<close>\<close>

definition relevance :: "ustr \<Rightarrow> ustr list \<Rightarrow> nat" where
  "relevance lower_text keywords = sum_list [1. k \<leftarrow> keywords, sublist (lower k) lower_text]"

text \<open>The row of an accepted entry; \<open>now\<close> is what \<open>datetime.utcnow().isoformat()\<close> gives.\<close>

definition make_row ::
  "world \<Rightarrow> ustr list \<Rightarrow> ustr list \<Rightarrow> ustr \<Rightarrow> ustr \<Rightarrow> ustr \<Rightarrow> ustr \<Rightarrow> ustr \<Rightarrow> cell row" where
  "make_row w keywords cities title link published article_text now =
     (let lower_text = lower (title @ u '' '' @ article_text);
          resumo = simple_summarize (lexrank w) article_text 3;
          tipo = classify_by_keywords (title @ u '' '' @ article_text) keywords;
          local = extract_cities (title @ u '' '' @ article_text) cities;
          nomes = extract_names_heuristic article_text
      in \<lparr>r_title = Str title, r_link = Str link, r_published = Str published,
          r_fetched_at = Str now, r_summary = Str resumo, r_category = Str tipo,
          r_cities = Str (join (u '';'') local), r_names = Str (join (u '';'') nomes),
          r_relevance = relevance lower_text keywords,
          r_raw_text_snippet =
            Str (strip (map (\<lambda>c. if c = 10 then 32 else c) (take 800 article_text)))\<rparr>)"

text \<open>
  The body of the loop over the entries. The pause after an accepted entry
  (\<open>time.sleep(0.5)\<close>) changes nothing the model holds.
\<close>

definition process_entry :: "world \<Rightarrow> ustr list \<Rightarrow> ustr list \<Rightarrow> loop_state \<Rightarrow> entry \<Rightarrow> loop_state" where
  "process_entry w keywords cities st e =
     (let title = entry_title e;
          link = entry_link e;
          published = entry_published e;
          key = entry_key e
      in if key \<in> seen_keys st then st
         else
           (let article_text = article_text_of w e;
                st1 = st\<lparr>requests := requests st @ [ArticleRequest link]\<rparr>;
                lower_text = lower (title @ u '' '' @ article_text)
            in if \<not> sublist paraiba_acento lower_text \<and> \<not> sublist paraiba lower_text then st1
               else st1\<lparr>rows := rows st1 @
                          [make_row w keywords cities title link published article_text
                             (utcnow w (length (rows st1)))],
                        seen_keys := insert key (seen_keys st1)\<rparr>))"

text \<open>The body of the loop over the keywords.\<close>

definition process_keyword :: "world \<Rightarrow> ustr list \<Rightarrow> ustr list \<Rightarrow> loop_state \<Rightarrow> ustr \<Rightarrow> loop_state" where
  "process_keyword w keywords cities st kw =
     (let rss = build_google_news_rss w kw;
          entries = take SEARCH_TOP (fetch_rss_entries w rss);
          st1 = st\<lparr>requests := requests st @ [FeedRequest rss]\<rparr>
      in foldl (process_entry w keywords cities) st1 entries)"

subsection \<open>main\<close>

datatype message = Saved nat | NoNewRecords

text \<open>
  What a run leaves: the exception that ended it if one did, the requests it made, the
  rows it accepted, the table it wrote to \<open>noticias_paraiba.csv\<close> (\<open>None\<close> when it did
  not write) and the line it printed.
\<close>

record outcome =
  failure :: "error option"
  fetched :: "request list"
  new_rows :: "cell row list"
  saved :: "ustr row list option"
  printed :: "message option"

definition initial_keys :: "cell row list \<Rightarrow> ustr set" where
  "initial_keys existing =
     (if existing \<noteq> [] then foldl (\<lambda>keys r. insert (row_key r) keys) {} existing else {})"

definition main :: "world \<Rightarrow> outcome" where
  "main w =
     (case load_keywords w of
        Inl err \<Rightarrow>
          \<lparr>failure = Some err, fetched = [], new_rows = [], saved = None, printed = None\<rparr>
      | Inr cfg \<Rightarrow>
          (let keywords = get_or (cfg_keywords cfg) [];
               cities = get_or (cfg_cities cfg) [];
               existing = load_existing_csv (output_csv w);
               st0 = \<lparr>rows = [], seen_keys = initial_keys existing, requests = []\<rparr>;
               st = foldl (process_keyword w keywords cities) st0 keywords;
               new_df = rows st;
               df_final = (if existing \<noteq> [] then existing @ new_df else new_df)
           in if df_final \<noteq> []
              then \<lparr>failure = None, fetched = requests st, new_rows = new_df,
                    saved = Some (save_csv df_final), printed = Some (Saved (length df_final))\<rparr>
              else \<lparr>failure = None, fetched = requests st, new_rows = new_df,
                    saved = None, printed = Some NoNewRecords\<rparr>))"

text \<open>The file \<open>noticias_paraiba.csv\<close> after a run, and the world the next run finds.\<close>

definition csv_after :: "world \<Rightarrow> csv_file" where
  "csv_after w = (case saved (main w) of None \<Rightarrow> output_csv w | Some t \<Rightarrow> Table t)"

definition next_run :: "world \<Rightarrow> world" where
  "next_run w = w\<lparr>output_csv := csv_after w\<rparr>"

section \<open>Notions the properties are stated with\<close>

text \<open>The region test on a lowered text.\<close>

definition mentions_paraiba :: "ustr \<Rightarrow> bool" where
  "mentions_paraiba lower_text \<longleftrightarrow> sublist paraiba_acento lower_text \<or> sublist paraiba lower_text"

text \<open>The keywords and cities a run works with, and the entries its feeds give it.\<close>

definition run_keywords :: "world \<Rightarrow> ustr list" where
  "run_keywords w = (case load_keywords w of Inl err \<Rightarrow> [] | Inr cfg \<Rightarrow> get_or (cfg_keywords cfg) [])"

definition run_cities :: "world \<Rightarrow> ustr list" where
  "run_cities w = (case load_keywords w of Inl err \<Rightarrow> [] | Inr cfg \<Rightarrow> get_or (cfg_cities cfg) [])"

definition run_entries :: "world \<Rightarrow> entry list" where
  "run_entries w =
     concat (map (\<lambda>kw. take SEARCH_TOP (fetch_rss_entries w (build_google_news_rss w kw)))
       (run_keywords w))"

text \<open>
  A qualifying token in the words of the specification: the first letter uppercase, the
  rest lowercase, and more than two characters.
\<close>

definition qualifying_token :: "ustr \<Rightarrow> bool" where
  "qualifying_token t \<longleftrightarrow>
     t \<noteq> [] \<and> isupper (hd t) \<and> list_all islower (tl t) \<and> 2 < length t"

text \<open>
  The classifier in the words of the specification: an ordered list of rules, each a
  label with its triggers; the first rule with a trigger in the text gives the label,
  and \<open>Outro\<close> is the label when no rule has one.
\<close>

definition category_rules :: "(ustr \<times> ustr list) list" where
  "category_rules =
     [(lbl_homicidio, trig_homicidio), (lbl_trafico, trig_trafico),
      (lbl_operacao, trig_operacao), (lbl_roubo, trig_roubo)]"

definition first_match :: "(ustr \<times> ustr list) list \<Rightarrow> ustr \<Rightarrow> ustr" where
  "first_match rules txt =
     (case find (\<lambda>rule. any_in (snd rule) txt) rules of
        None \<Rightarrow> lbl_outro
      | Some rule \<Rightarrow> fst rule)"

text \<open>The invariants of the two loops of \<open>main\<close> that the proofs carry.\<close>

definition keys_inv :: "ustr set \<Rightarrow> loop_state \<Rightarrow> bool" where
  "keys_inv K st \<longleftrightarrow>
     K \<subseteq> seen_keys st \<and> row_key ` set (rows st) \<subseteq> seen_keys st \<and>
     distinct (map row_key (rows st)) \<and> row_key ` set (rows st) \<inter> K = {}"

definition row_ok :: "world \<Rightarrow> cell row \<Rightarrow> bool" where
  "row_ok w r \<longleftrightarrow>
     (\<exists>e n. e \<in> set (run_entries w) \<and>
        r = make_row w (run_keywords w) (run_cities w) (entry_title e) (entry_link e)
              (entry_published e) (article_text_of w e) n \<and>
        mentions_paraiba (lower (entry_title e @ u '' '' @ article_text_of w e)))"

section \<open>Example inputs\<close>

definition link_a :: ustr where "link_a = u ''http://a/1''"

definition link_b :: ustr where "link_b = u ''http://a/2''"

definition entry_a :: entry where
  "entry_a = \<lparr>e_title = Some (u ''Crime''), e_link = Some link_a, e_published = Some (u ''Mon''),
              e_summary = None, e_description = None\<rparr>"

definition entry_b :: entry where
  "entry_b = \<lparr>e_title = Some (u ''Crime''), e_link = Some link_b, e_published = Some (u ''Mon''),
              e_summary = None, e_description = None\<rparr>"

definition pages_two :: "ustr \<Rightarrow> page option" where
  "pages_two url =
     (if url = link_a then Some \<lparr>paragraphs = [u ''Nada''], meta_description = None\<rparr>
      else if url = link_b then Some \<lparr>paragraphs = [u ''Roubo na Paraiba''], meta_description = None\<rparr>
      else None)"

definition world_two :: world where
  "world_two =
     \<lparr>kw_file = Document \<lparr>cfg_keywords = Some [u ''crime''], cfg_cities = Some []\<rparr>,
      output_csv = Missing, requote_uri = (\<lambda>s. s), feedparser_parse = (\<lambda>url. [entry_a, entry_b]),
      http_get = pages_two, lexrank = (\<lambda>t k. None), utcnow = (\<lambda>n. u ''2024-01-01T00:00:00'')\<rparr>"

definition loop_start :: loop_state where
  "loop_start = \<lparr>rows = [], seen_keys = {}, requests = []\<rparr>"

definition row_b :: "cell row" where
  "row_b = make_row world_two [u ''crime''] [] (entry_title entry_b) (entry_link entry_b)
             (entry_published entry_b) (article_text_of world_two entry_b) (utcnow world_two 0)"

definition state_b :: loop_state where
  "state_b = process_entry world_two [u ''crime''] [] loop_start entry_b"

definition stored_row :: "ustr row" where
  "stored_row =
     \<lparr>r_title = u ''Crime na Paraiba'', r_link = u ''http://a/0'', r_published = u ''Sun'',
      r_fetched_at = u ''2023-12-31T00:00:00'', r_summary = u ''Roubo em Patos'',
      r_category = u ''Roubo'', r_cities = u ''Patos'', r_names = u ''Ana Lima'',
      r_relevance = 1, r_raw_text_snippet = u ''Roubo em Patos''\<rparr>"

definition world_stored :: world where
  "world_stored =
     world_two\<lparr>kw_file := Document \<lparr>cfg_keywords = Some [], cfg_cities = Some []\<rparr>,
               output_csv := Table [stored_row]\<rparr>"

definition world_no_fields :: world where
  "world_no_fields = world_two\<lparr>kw_file := Document \<lparr>cfg_keywords = None, cfg_cities = None\<rparr>\<rparr>"

definition world_no_file :: world where
  "world_no_file = world_two\<lparr>kw_file := NoFile\<rparr>"

definition world_not_json :: world where
  "world_not_json = world_two\<lparr>kw_file := NotJSON\<rparr>"

definition text_homicida :: ustr where
  "text_homicida = u ''HOMICIDA preso por roubo''"

definition text_short :: ustr where
  "text_short = u ''  Roubo em Patos ''"

definition keywords_example :: "ustr list" where
  "keywords_example = [u ''homic'' @ [237] @ u ''dio'', u ''tr'' @ [225] @ u ''fico'']"

definition text_example :: ustr where
  "text_example = u ''Homic'' @ [237] @ u ''dio registrado; suspeita de tr'' @ [225] @ u ''fico''"

definition cities_example :: "ustr list" where
  "cities_example = [u ''Jo'' @ [227] @ u ''o Pessoa'', u ''Campina Grande'']"

definition text_cities :: ustr where
  "text_cities =
     u ''De Campina Grande a Jo'' @ [227] @ u ''o Pessoa e de volta a CAMPINA GRANDE''"

definition text_names :: ustr where
  "text_names = u ''Vice-Prefeito Jo''"

text \<open>
  A feed entry without a published date, whose article cannot be fetched, for two runs
  in a row.
\<close>

definition link_c :: ustr where "link_c = u ''http://a/3''"

definition entry_undated :: entry where
  "entry_undated =
     \<lparr>e_title = Some (u ''Crime na Paraiba''), e_link = Some link_c, e_published = None,
      e_summary = Some (u ''Roubo em Patos''), e_description = None\<rparr>"

definition world_undated :: world where
  "world_undated =
     \<lparr>kw_file = Document \<lparr>cfg_keywords = Some [u ''crime''], cfg_cities = Some []\<rparr>,
      output_csv = Missing, requote_uri = (\<lambda>s. s), feedparser_parse = (\<lambda>url. [entry_undated]),
      http_get = (\<lambda>url. None), lexrank = (\<lambda>t k. None),
      utcnow = (\<lambda>n. u ''2024-01-01T00:00:00'')\<rparr>"

definition row_undated :: "cell row" where
  "row_undated = make_row world_undated [u ''crime''] [] (u ''Crime na Paraiba'') link_c []
                   (u ''Roubo em Patos'') (u ''2024-01-01T00:00:00'')"

section \<open>Lemmas on texts\<close>

lemma u_space: "u '' '' = [32]" by (simp add: u_def)
lemma isspace_32: "isspace 32" by (simp add: isspace_def)

lemma split_from_tokens:
  "\<forall>c\<in>set cur. \<not> isspace c \<Longrightarrow> t \<in> set (split_from cur s) \<Longrightarrow> t \<noteq> [] \<and> (\<forall>c\<in>set t. \<not> isspace c)"
proof (induction s arbitrary: cur)
  case Nil
  then show ?case by (auto split: if_splits)
next
  case (Cons a s)
  show ?case
  proof (cases "isspace a")
    case True
    with Cons.prems have "t = cur \<and> cur \<noteq> [] \<or> t \<in> set (split_from [] s)"
      by (auto split: if_splits)
    then show ?thesis using Cons.prems(1) Cons.IH [of "[]"] by auto
  next
    case False
    with Cons.prems have "t \<in> set (split_from (cur @ [a]) s)" by simp
    moreover have "\<forall>c\<in>set (cur @ [a]). \<not> isspace c" using False Cons.prems(1) by simp
    ultimately show ?thesis by (rule Cons.IH [rotated])
  qed
qed

lemma two_le_length_Cons: "(2 \<le> length (w # xs)) = (xs \<noteq> [])"
  by (cases xs) auto

lemma split_tokens: "t \<in> set (split s) \<Longrightarrow> t \<noteq> [] \<and> (\<forall>c\<in>set t. \<not> isspace c)"
  unfolding split_def using split_from_tokens [of "[]" t s] by simp

lemma split_from_word:
  "\<forall>c\<in>set w. \<not> isspace c \<Longrightarrow> split_from cur (w @ rest) = split_from (cur @ w) rest"
  by (induction w arbitrary: cur) auto

lemma split_join:
  "\<forall>p\<in>set parts. p \<noteq> [] \<and> (\<forall>c\<in>set p. \<not> isspace c) \<Longrightarrow> split (join (u '' '') parts) = parts"
proof (induction "u '' ''" parts rule: join.induct)
  case 1
  then show ?case by (simp add: split_def)
next
  case (2 x)
  then show ?case using split_from_word [of x "[]" "[]"] by (simp add: split_def)
next
  case (3 x y ys)
  have "split_from [] (x @ [32] @ join (u '' '') (y # ys)) = split_from x ([32] @ join (u '' '') (y # ys))"
    using 3(2) split_from_word [of x "[]"] by simp
  also have "\<dots> = x # split_from [] (join (u '' '') (y # ys))"
    using 3(2) by (simp add: isspace_32)
  also have "\<dots> = x # y # ys" using 3 by (simp add: split_def)
  finally show ?case by (simp add: split_def u_space)
qed

lemma names_loop_shape:
  "n \<in> set (names_loop ws) \<Longrightarrow>
     \<exists>w run. n = join (u '' '') (w # run) \<and> run \<noteq> [] \<and> istitle w \<and> 2 < length w \<and>
        (\<forall>p\<in>set run. istitle p) \<and> sublist (w # run) ws"
proof (induction ws rule: names_loop.induct)
  case 1
  then show ?case by simp
next
  case (2 w ws)
  show ?case
  proof (cases "istitle w \<and> 2 < length w \<and> takeWhile istitle ws \<noteq> []")
    case True
    from 2(4) True have "n = join (u '' '') (w # takeWhile istitle ws) \<or> n \<in> set (names_loop (dropWhile istitle ws))"
      by (auto simp: Let_def Suc_le_eq split: if_splits)
    then show ?thesis
    proof
      assume n: "n = join (u '' '') (w # takeWhile istitle ws)"
      have "prefix (w # takeWhile istitle ws) (w # ws)"
        by (simp add: takeWhile_is_prefix)
      then have "sublist (w # takeWhile istitle ws) (w # ws)" by (rule prefix_imp_sublist)
      with n True show ?thesis by (metis set_takeWhileD)
    next
      assume "n \<in> set (names_loop (dropWhile istitle ws))"
      with 2(1) True obtain v run where
        h: "n = join (u '' '') (v # run)" "run \<noteq> []" "istitle v" "2 < length v"
           "\<forall>p\<in>set run. istitle p" "sublist (v # run) (dropWhile istitle ws)"
        by (auto simp: Let_def Suc_le_eq)
      have "suffix (dropWhile istitle ws) (w # ws)"
        by (meson suffix_dropWhile suffix_ConsI)
      then have "sublist (dropWhile istitle ws) (w # ws)" by (rule suffix_imp_sublist)
      with h(6) have "sublist (v # run) (w # ws)" by (rule sublist_order.order_trans)
      with h show ?thesis by blast
    qed
  next
    case False
    with 2(4) have n: "n \<in> set (names_loop ws)"
      by (auto simp: Let_def Suc_le_eq split: if_splits)
    have "\<exists>v run. n = join (u '' '') (v # run) \<and> run \<noteq> [] \<and> istitle v \<and> 2 < length v \<and>
        (\<forall>p\<in>set run. istitle p) \<and> sublist (v # run) ws"
    proof (cases "istitle w \<and> 2 < length w")
      case True
      with False have "\<not> 2 \<le> length (w # takeWhile istitle ws)"
        by (simp add: two_le_length_Cons)
      with True n show ?thesis using 2(2) by simp
    next
      case False
      with n show ?thesis using 2(3) by simp
    qed
    then obtain v run where
        h: "n = join (u '' '') (v # run)" "run \<noteq> []" "istitle v" "2 < length v"
           "\<forall>p\<in>set run. istitle p" "sublist (v # run) ws"
      by blast
    have "sublist ws (w # ws)" by (simp add: sublist_Cons_right)
    with h(6) have "sublist (v # run) (w # ws)" by (rule sublist_order.order_trans)
    with h show ?thesis by blast
  qed
qed

lemma remdups_snoc: "remdups (ys @ [a]) = filter (\<lambda>x. x \<noteq> a) (remdups ys) @ [a]"
  by (induction ys) auto

lemma fromkeys_foldl:
  "foldl (\<lambda>d x. if x \<in> set d then d else d @ [x]) d xs
     = d @ filter (\<lambda>x. x \<notin> set d) (rev (remdups (rev xs)))"
proof (induction xs arbitrary: d)
  case Nil
  then show ?case by simp
next
  case (Cons a xs)
  have r: "rev (remdups (rev xs @ [a])) = a # filter (\<lambda>x. x \<noteq> a) (rev (remdups (rev xs)))"
    by (simp add: remdups_snoc rev_filter)
  show ?case
  proof (cases "a \<in> set d")
    case True
    then have "filter (\<lambda>x. x \<notin> set d) (filter (\<lambda>x. x \<noteq> a) (rev (remdups (rev xs))))
       = filter (\<lambda>x. x \<notin> set d) (rev (remdups (rev xs)))"
      by (auto intro: filter_cong)
    with True show ?thesis using Cons.IH [of d] by (simp add: r)
  next
    case False
    have "filter (\<lambda>x. x \<notin> set (d @ [a])) (rev (remdups (rev xs)))
       = filter (\<lambda>x. x \<notin> set d) (filter (\<lambda>x. x \<noteq> a) (rev (remdups (rev xs))))"
      by (auto intro: filter_cong)
    with False show ?thesis using Cons.IH [of "d @ [a]"] by (simp add: r)
  qed
qed

lemma fromkeys_eq: "fromkeys xs = rev (remdups (rev xs))"
  by (simp add: fromkeys_def fromkeys_foldl)

lemma distinct_fromkeys: "distinct (fromkeys xs)"
  by (simp add: fromkeys_eq)

lemma set_fromkeys: "set (fromkeys xs) = set xs"
  by (simp add: fromkeys_eq)

lemma fromkeys_distinct: "distinct xs \<Longrightarrow> fromkeys xs = xs"
  by (simp add: fromkeys_eq distinct_remdups_id)

lemma subseq_remdups_self: "subseq (remdups xs) xs"
  by (induction xs) auto

lemma subseq_rev: "subseq xs ys \<Longrightarrow> subseq (rev xs) (rev ys)"
proof (induction rule: list_emb.induct)
  case (list_emb_Nil ys)
  then show ?case by simp
next
  case (list_emb_Cons xs ys y)
  then show ?case by (simp add: subseq_rev_drop_many)
next
  case (list_emb_Cons2 x y xs ys)
  then show ?case by (simp add: list_emb_append_mono)
qed

lemma subseq_fromkeys: "subseq (fromkeys xs) xs"
proof -
  have "subseq (remdups (rev xs)) (rev xs)" by (rule subseq_remdups_self)
  then have "subseq (rev (remdups (rev xs))) (rev (rev xs))" by (rule subseq_rev)
  then show ?thesis by (simp add: fromkeys_eq)
qed

lemma fromkeys_filter: "fromkeys (filter P xs) = filter P (fromkeys xs)"
  by (simp add: fromkeys_eq rev_filter remdups_filter)

lemma relevance_length: "relevance t ks = length (filter (\<lambda>k. sublist (lower k) t) ks)"
  unfolding relevance_def by (induction ks) auto

section \<open>Lemmas on the pipeline\<close>

lemma foldl_invariant:
  "P s \<Longrightarrow> (\<And>s x. x \<in> set xs \<Longrightarrow> P s \<Longrightarrow> P (f s x)) \<Longrightarrow> P (foldl f s xs)"
  by (induction xs arbitrary: s) auto

lemma row_key_make_row: "row_key (make_row w ks cs t l p a n) = t @ u ''_'' @ p"
  by (simp add: row_key_def make_row_def Let_def)

lemma process_entry_seen:
  "entry_key e \<in> seen_keys st \<Longrightarrow> process_entry w ks cs st e = st"
  by (simp add: process_entry_def Let_def)

lemma process_entry_discard:
  "entry_key e \<notin> seen_keys st \<Longrightarrow>
   \<not> mentions_paraiba (lower (entry_title e @ u '' '' @ article_text_of w e)) \<Longrightarrow>
   process_entry w ks cs st e = st\<lparr>requests := requests st @ [ArticleRequest (entry_link e)]\<rparr>"
  by (simp add: process_entry_def Let_def mentions_paraiba_def)

lemma process_entry_accept:
  "entry_key e \<notin> seen_keys st \<Longrightarrow>
   mentions_paraiba (lower (entry_title e @ u '' '' @ article_text_of w e)) \<Longrightarrow>
   process_entry w ks cs st e =
     st\<lparr>requests := requests st @ [ArticleRequest (entry_link e)],
        rows := rows st @ [make_row w ks cs (entry_title e) (entry_link e) (entry_published e)
                             (article_text_of w e) (utcnow w (length (rows st)))],
        seen_keys := insert (entry_key e) (seen_keys st)\<rparr>"
  by (auto simp: process_entry_def Let_def mentions_paraiba_def)

lemma process_entry_rows:
  "rows (process_entry w ks cs st e) =
     (if entry_key e \<notin> seen_keys st \<and>
         mentions_paraiba (lower (entry_title e @ u '' '' @ article_text_of w e))
      then rows st @ [make_row w ks cs (entry_title e) (entry_link e) (entry_published e)
                             (article_text_of w e) (utcnow w (length (rows st)))]
      else rows st)"
  by (auto simp: process_entry_def Let_def mentions_paraiba_def)

lemma process_entry_seen_keys:
  "seen_keys (process_entry w ks cs st e) =
     (if entry_key e \<notin> seen_keys st \<and>
         mentions_paraiba (lower (entry_title e @ u '' '' @ article_text_of w e))
      then insert (entry_key e) (seen_keys st)
      else seen_keys st)"
  by (auto simp: process_entry_def Let_def mentions_paraiba_def)

lemma entry_key_row_key:
  "row_key (make_row w ks cs (entry_title e) l (entry_published e) a n) = entry_key e"
  by (simp add: row_key_make_row entry_key_def)

lemma keys_inv_entry: "keys_inv K st \<Longrightarrow> keys_inv K (process_entry w ks cs st e)"
  unfolding keys_inv_def
  by (auto simp: process_entry_rows process_entry_seen_keys entry_key_row_key)

lemma keys_inv_keyword: "keys_inv K st \<Longrightarrow> keys_inv K (process_keyword w ks cs st kw)"
proof -
  assume a: "keys_inv K st"
  have "keys_inv K (st\<lparr>requests := requests st @ [FeedRequest (build_google_news_rss w kw)]\<rparr>)"
    using a by (simp add: keys_inv_def)
  then show ?thesis
    unfolding process_keyword_def Let_def
    by (rule foldl_invariant) (rule keys_inv_entry)
qed

lemma keys_inv_run: "keys_inv K st \<Longrightarrow> keys_inv K (foldl (process_keyword w ks cs) st kws)"
  by (rule foldl_invariant) (auto intro: keys_inv_keyword)

lemma initial_keys_eq: "initial_keys existing = row_key ` set existing"
proof -
  have "foldl (\<lambda>keys r. insert (row_key r) keys) K rs = K \<union> row_key ` set rs" for K rs
    by (induction rs arbitrary: K) auto
  then show ?thesis by (auto simp: initial_keys_def)
qed

lemma main_document:
  "kw_file w = Document cfg \<Longrightarrow>
   main w =
     (let keywords = get_or (cfg_keywords cfg) [];
          cities = get_or (cfg_cities cfg) [];
          existing = load_existing_csv (output_csv w);
          st = foldl (process_keyword w keywords cities)
                 \<lparr>rows = [], seen_keys = initial_keys existing, requests = []\<rparr> keywords;
          df_final = existing @ rows st
      in \<lparr>failure = None, fetched = requests st, new_rows = rows st,
          saved = (if df_final \<noteq> [] then Some (save_csv df_final) else None),
          printed = Some (if df_final \<noteq> [] then Saved (length df_final) else NoNewRecords)\<rparr>)"
  by (auto simp: main_def load_keywords_def Let_def)

lemma main_new_rows:
  "new_rows (main w) =
     rows (foldl (process_keyword w (run_keywords w) (run_cities w))
             \<lparr>rows = [], seen_keys = initial_keys (load_existing_csv (output_csv w)), requests = []\<rparr>
             (run_keywords w))"
  by (cases "kw_file w")
     (auto simp: main_def load_keywords_def run_keywords_def run_cities_def Let_def)

lemma main_keys:
  "distinct (map row_key (new_rows (main w))) \<and>
   row_key ` set (new_rows (main w)) \<inter> row_key ` set (load_existing_csv (output_csv w)) = {}"
proof -
  let ?K = "initial_keys (load_existing_csv (output_csv w))"
  have "keys_inv ?K \<lparr>rows = [], seen_keys = ?K, requests = []\<rparr>"
    by (simp add: keys_inv_def)
  then have "keys_inv ?K (foldl (process_keyword w (run_keywords w) (run_cities w))
             \<lparr>rows = [], seen_keys = ?K, requests = []\<rparr> (run_keywords w))"
    by (rule keys_inv_run)
  then show ?thesis
    by (simp add: main_new_rows keys_inv_def initial_keys_eq)
qed

lemma lower_append: "lower (a @ b) = lower a @ lower b"
  by (simp add: lower_def)

lemma lower_space: "lower (u '' '') = [32]"
  by (simp add: lower_def u_def lower_cp_def isupper_def)

lemma sublist_across_space:
  assumes "sublist p (a @ [32] @ b)" and "32 \<notin> set p"
  shows "sublist p (a @ b)"
proof -
  from assms(1) consider "sublist p a" | "sublist p ([32] @ b)"
    | xs1 xs2 where "p = xs1 @ xs2" "suffix xs1 a" "prefix xs2 ([32] @ b)"
    by (auto simp: sublist_append [of p a])
  then show ?thesis
  proof cases
    case 1
    then show ?thesis by (simp add: sublist_append)
  next
    case 2
    then have "prefix p (32 # b) \<or> sublist p b" by (simp add: sublist_Cons_right)
    moreover have "prefix p (32 # b) \<Longrightarrow> p = []"
      using assms(2) by (cases p) auto
    ultimately have "sublist p b" by auto
    then show ?thesis by (simp add: sublist_append)
  next
    case 3
    have "xs2 = []" using 3(1,3) assms(2) by (cases xs2) auto
    with 3 have "suffix p a" by simp
    then have "sublist p a" by (rule suffix_imp_sublist)
    then show ?thesis by (simp add: sublist_append)
  qed
qed

lemma no_space_paraiba: "32 \<notin> set paraiba_acento" "32 \<notin> set paraiba"
  by (simp_all add: paraiba_acento_def paraiba_def u_def)

lemma mentions_without_space:
  "mentions_paraiba (lower (t @ u '' '' @ a)) \<Longrightarrow> mentions_paraiba (lower (t @ a))"
  unfolding mentions_paraiba_def lower_append lower_space
  using sublist_across_space [of paraiba_acento "lower t" "lower a"]
        sublist_across_space [of paraiba "lower t" "lower a"] no_space_paraiba
  by blast

lemma rows_ok_entry:
  "e \<in> set (run_entries w) \<Longrightarrow> \<forall>r\<in>set (rows st). row_ok w r \<Longrightarrow>
   \<forall>r\<in>set (rows (process_entry w (run_keywords w) (run_cities w) st e)). row_ok w r"
  by (auto simp: process_entry_rows row_ok_def)

lemma rows_ok_keyword:
  assumes "kw \<in> set (run_keywords w)" and "\<forall>r\<in>set (rows st). row_ok w r"
  shows "\<forall>r\<in>set (rows (process_keyword w (run_keywords w) (run_cities w) st kw)). row_ok w r"
proof -
  let ?es = "take SEARCH_TOP (fetch_rss_entries w (build_google_news_rss w kw))"
  have sub: "set ?es \<subseteq> set (run_entries w)"
    using assms(1) by (auto simp: run_entries_def)
  have "\<forall>r\<in>set (rows (st\<lparr>requests := requests st @ [FeedRequest (build_google_news_rss w kw)]\<rparr>)). row_ok w r"
    using assms(2) by simp
  then have "\<forall>r\<in>set (rows (foldl (process_entry w (run_keywords w) (run_cities w))
       (st\<lparr>requests := requests st @ [FeedRequest (build_google_news_rss w kw)]\<rparr>) ?es)). row_ok w r"
    by (rule foldl_invariant) (use sub in \<open>auto intro: rows_ok_entry [rule_format]\<close>)
  then show ?thesis by (simp add: process_keyword_def Let_def)
qed

lemma rows_ok_main: "r \<in> set (new_rows (main w)) \<Longrightarrow> row_ok w r"
proof -
  let ?st0 = "\<lparr>rows = [], seen_keys = initial_keys (load_existing_csv (output_csv w)), requests = []\<rparr>"
  have "\<forall>r\<in>set (rows ?st0). row_ok w r" by simp
  then have "\<forall>r\<in>set (rows (foldl (process_keyword w (run_keywords w) (run_cities w)) ?st0 (run_keywords w))). row_ok w r"
    by (rule foldl_invariant) (auto intro: rows_ok_keyword [rule_format])
  moreover assume "r \<in> set (new_rows (main w))"
  ultimately show ?thesis by (simp add: main_new_rows)
qed

lemma process_entry_kw_file:
  "process_entry (w\<lparr>kw_file := k\<rparr>) ks cs st e = process_entry w ks cs st e"
proof -
  have a: "article_text_of (w\<lparr>kw_file := k\<rparr>) e = article_text_of w e"
    by (simp add: article_text_of_def extract_text_from_link_def)
  have m: "make_row (w\<lparr>kw_file := k\<rparr>) ks cs t l p x n = make_row w ks cs t l p x n" for t l p x n
    by (simp add: make_row_def)
  show ?thesis by (simp add: process_entry_def Let_def a m)
qed

lemma process_keyword_kw_file:
  "process_keyword (w\<lparr>kw_file := k\<rparr>) ks cs = process_keyword w ks cs"
  by (intro ext)
     (simp add: process_keyword_def build_google_news_rss_def fetch_rss_entries_def
        process_entry_kw_file [abs_def])

lemma labels_distinct:
  "distinct [lbl_homicidio, lbl_trafico, lbl_operacao, lbl_roubo, lbl_outro]"
  by (simp add: lbl_homicidio_def lbl_trafico_def lbl_operacao_def lbl_roubo_def lbl_outro_def u_def)

lemma labels_nonempty:
  "lbl_homicidio \<noteq> []" "lbl_trafico \<noteq> []" "lbl_operacao \<noteq> []" "lbl_roubo \<noteq> []" "lbl_outro \<noteq> []"
  by (simp_all add: lbl_homicidio_def lbl_trafico_def lbl_operacao_def lbl_roubo_def lbl_outro_def u_def)

section \<open>The example runs\<close>

lemma text_a: "article_text_of world_two entry_a = u ''Nada''"
  by code_simp

lemma text_b: "article_text_of world_two entry_b = u ''Roubo na Paraiba''"
  by code_simp

lemma key_ab: "entry_key entry_a = u ''Crime_Mon''" "entry_key entry_b = u ''Crime_Mon''"
  by code_simp+

lemma region_a: "\<not> mentions_paraiba (lower (entry_title entry_a @ u '' '' @ article_text_of world_two entry_a))"
  unfolding text_a by code_simp

lemma region_b: "mentions_paraiba (lower (entry_title entry_b @ u '' '' @ article_text_of world_two entry_b))"
  unfolding text_b by code_simp

lemma world_two_fields:
  "kw_file world_two = Document \<lparr>cfg_keywords = Some [u ''crime''], cfg_cities = Some []\<rparr>"
  "output_csv world_two = Missing"
  "feedparser_parse world_two url = [entry_a, entry_b]"
  by (simp_all add: world_two_def)

lemma links_ab: "entry_link entry_a = link_a" "entry_link entry_b = link_b"
  by (simp_all add: entry_link_def entry_a_def entry_b_def get_or_def)

lemma step_a:
  "entry_key entry_a \<notin> seen_keys st \<Longrightarrow>
   process_entry world_two ks cs st entry_a = st\<lparr>requests := requests st @ [ArticleRequest link_a]\<rparr>"
  using process_entry_discard [OF _ region_a] by (simp add: links_ab)

lemma step_b:
  "entry_key entry_b \<notin> seen_keys st \<Longrightarrow>
   process_entry world_two ks cs st entry_b =
     st\<lparr>requests := requests st @ [ArticleRequest link_b],
        rows := rows st @ [make_row world_two ks cs (entry_title entry_b) (entry_link entry_b)
                  (entry_published entry_b) (article_text_of world_two entry_b)
                  (utcnow world_two (length (rows st)))],
        seen_keys := insert (entry_key entry_b) (seen_keys st)\<rparr>"
  using process_entry_accept [OF _ region_b] by (simp add: links_ab)

lemma main_two:
  "main world_two =
     \<lparr>failure = None,
      fetched = [FeedRequest (build_google_news_rss world_two (u ''crime'')),
                 ArticleRequest link_a, ArticleRequest link_b],
      new_rows = [row_b], saved = Some (save_csv [row_b]), printed = Some (Saved 1)\<rparr>"
  by (simp add: main_document [OF world_two_fields(1)] world_two_fields Let_def get_or_def
        load_existing_csv_def initial_keys_def process_keyword_def fetch_rss_entries_def
        SEARCH_TOP_def step_a step_b row_b_def)

lemma stored_round_trip: "save_csv (load_existing_csv (Table [stored_row])) = [stored_row]"
  by code_simp

lemma stored_loaded: "load_existing_csv (Table [stored_row]) \<noteq> []"
  by (simp add: load_existing_csv_def)

lemma main_stored:
  "main world_stored =
     \<lparr>failure = None, fetched = [], new_rows = [], saved = Some [stored_row],
      printed = Some (Saved 1)\<rparr>"
proof -
  have k: "kw_file world_stored = Document \<lparr>cfg_keywords = Some [], cfg_cities = Some []\<rparr>"
    and o: "output_csv world_stored = Table [stored_row]"
    by (simp_all add: world_stored_def)
  have l: "length (load_existing_csv (Table [stored_row])) = 1"
    by (simp add: load_existing_csv_def)
  show ?thesis
    by (simp add: main_document [OF k] o Let_def get_or_def stored_round_trip stored_loaded l)
qed

lemma main_no_fields:
  "main world_no_fields =
     \<lparr>failure = None, fetched = [], new_rows = [], saved = None, printed = Some NoNewRecords\<rparr>"
proof -
  have k: "kw_file world_no_fields = Document \<lparr>cfg_keywords = None, cfg_cities = None\<rparr>"
    and o: "output_csv world_no_fields = Missing"
    by (simp_all add: world_no_fields_def world_two_def)
  show ?thesis
    by (simp add: main_document [OF k] o Let_def get_or_def load_existing_csv_def)
qed

lemma split_text_names: "split text_names = [u ''Vice-Prefeito'', u ''Jo'']"
  by code_simp

lemma istitle_names: "istitle (u ''Vice-Prefeito'')" "istitle (u ''Jo'')"
  by code_simp+

lemma names_of_text_names: "extract_names_heuristic text_names = [u ''Vice-Prefeito Jo'']"
proof -
  have l: "2 < length (u ''Vice-Prefeito'')" by (simp add: u_def)
  have j: "u ''Vice-Prefeito'' @ u '' '' @ u ''Jo'' = u ''Vice-Prefeito Jo''" by (simp add: u_def)
  have "names_loop [u ''Vice-Prefeito'', u ''Jo''] = [u ''Vice-Prefeito Jo'']"
    by (simp add: istitle_names Let_def l j)
  then show ?thesis
    by (simp add: extract_names_heuristic_def split_text_names fromkeys_def)
qed

section \<open>Two runs on an entry without a date\<close>

text \<open>
  The first run stores the entry with an empty \<open>published\<close> field. The second run
  reads that field as NaN, so the key of the stored row ends in \<open>nan\<close> and differs
  from the key of the entry, which is accepted again: the store then holds two rows
  with the same title and the same (empty) published string.
\<close>

lemma process_entry_output_csv:
  "process_entry (w\<lparr>output_csv := k\<rparr>) ks cs st e = process_entry w ks cs st e"
proof -
  have a: "article_text_of (w\<lparr>output_csv := k\<rparr>) e = article_text_of w e"
    by (simp add: article_text_of_def extract_text_from_link_def)
  have m: "make_row (w\<lparr>output_csv := k\<rparr>) ks cs t l p x n = make_row w ks cs t l p x n" for t l p x n
    by (simp add: make_row_def)
  show ?thesis by (simp add: process_entry_def Let_def a m)
qed

lemma process_keyword_output_csv:
  "process_keyword (w\<lparr>output_csv := k\<rparr>) ks cs = process_keyword w ks cs"
  by (intro ext)
     (simp add: process_keyword_def build_google_news_rss_def fetch_rss_entries_def
        process_entry_output_csv [abs_def])

lemma undated_fields:
  "entry_title entry_undated = u ''Crime na Paraiba''"
  "entry_link entry_undated = link_c"
  "entry_published entry_undated = []"
  "entry_key entry_undated = u ''Crime na Paraiba_''"
  by (simp_all add: entry_title_def entry_link_def entry_published_def entry_key_def
        entry_undated_def get_or_def u_def)

lemma text_undated: "article_text_of world_undated entry_undated = u ''Roubo em Patos''"
  by code_simp

lemma region_undated:
  "mentions_paraiba (lower (entry_title entry_undated @ u '' '' @
     article_text_of world_undated entry_undated))"
  unfolding text_undated by code_simp

lemma utcnow_undated: "utcnow world_undated n = u ''2024-01-01T00:00:00''"
  by (simp add: world_undated_def)

lemma step_undated:
  "entry_key entry_undated \<notin> seen_keys st \<Longrightarrow>
   process_entry world_undated [u ''crime''] [] st entry_undated =
     st\<lparr>requests := requests st @ [ArticleRequest link_c],
        rows := rows st @ [row_undated],
        seen_keys := insert (entry_key entry_undated) (seen_keys st)\<rparr>"
  using process_entry_accept [OF _ region_undated, of st "[u ''crime'']" "[]"]
  by (simp add: undated_fields text_undated row_undated_def utcnow_undated)

lemma world_undated_fields:
  "kw_file world_undated = Document \<lparr>cfg_keywords = Some [u ''crime''], cfg_cities = Some []\<rparr>"
  "output_csv world_undated = Missing"
  "feedparser_parse world_undated url = [entry_undated]"
  by (simp_all add: world_undated_def)

lemma main_undated:
  "main world_undated =
     \<lparr>failure = None,
      fetched = [FeedRequest (build_google_news_rss world_undated (u ''crime'')),
                 ArticleRequest link_c],
      new_rows = [row_undated], saved = Some (save_csv [row_undated]),
      printed = Some (Saved 1)\<rparr>"
  by (simp add: main_document [OF world_undated_fields(1)] world_undated_fields Let_def get_or_def
        load_existing_csv_def initial_keys_def process_keyword_def fetch_rss_entries_def
        SEARCH_TOP_def step_undated undated_fields)

lemma row_undated_keys:
  "r_title row_undated = Str (u ''Crime na Paraiba'')" "r_published row_undated = Str []"
  "r_link row_undated = Str link_c"
  by (simp_all add: row_undated_def make_row_def)

lemma title_read: "read_field (u ''Crime na Paraiba'') = Str (u ''Crime na Paraiba'')"
  by code_simp

lemma empty_read: "read_field [] = NaN"
  by code_simp

lemma link_read: "read_field link_c = Str link_c"
  by code_simp

lemma reloaded_key:
  "row_key (map_row read_field (map_row write_cell row_undated)) = u ''Crime na Paraiba_nan''"
  by (simp add: row_key_def map_row_def row_undated_keys title_read empty_read) (simp add: u_def)

lemma key_differs: "entry_key entry_undated \<noteq> u ''Crime na Paraiba_nan''"
  by (simp add: undated_fields u_def)

lemma main_undated_again:
  "main (next_run world_undated) =
     \<lparr>failure = None,
      fetched = [FeedRequest (build_google_news_rss world_undated (u ''crime'')),
                 ArticleRequest link_c],
      new_rows = [row_undated],
      saved = Some (save_csv [map_row read_field (map_row write_cell row_undated), row_undated]),
      printed = Some (Saved 2)\<rparr>"
proof -
  have n: "next_run world_undated = world_undated\<lparr>output_csv := Table (save_csv [row_undated])\<rparr>"
    by (simp add: next_run_def csv_after_def main_undated)
  have k: "kw_file (next_run world_undated) =
      Document \<lparr>cfg_keywords = Some [u ''crime''], cfg_cities = Some []\<rparr>"
    by (simp add: n world_undated_fields)
  have b: "build_google_news_rss (world_undated\<lparr>output_csv := c\<rparr>) q =
      build_google_news_rss world_undated q" for c q
    by (simp add: build_google_news_rss_def)
  show ?thesis
    unfolding main_document [OF k]
    by (simp add: n process_keyword_output_csv Let_def get_or_def load_existing_csv_def
          save_csv_def initial_keys_def reloaded_key key_differs process_keyword_def
          fetch_rss_entries_def world_undated_fields SEARCH_TOP_def step_undated b)
qed

lemma undated_entry_stored_twice:
  "map_option (map r_title) (saved (main (next_run world_undated))) =
     Some [u ''Crime na Paraiba'', u ''Crime na Paraiba''] \<and>
   map_option (map r_published) (saved (main (next_run world_undated))) = Some [[], []] \<and>
   map_option (map r_link) (saved (main (next_run world_undated))) = Some [link_c, link_c] \<and>
   run_entries (next_run world_undated) = [entry_undated] \<and>
   run_entries world_undated = [entry_undated]"
proof -
  have w: "write_cell (read_field (u ''Crime na Paraiba'')) = u ''Crime na Paraiba''"
    "write_cell (read_field []) = []" "write_cell (read_field link_c) = link_c"
    by (simp_all add: title_read empty_read link_read)
  have a: "run_entries world_undated = [entry_undated]"
    by (simp add: run_entries_def run_keywords_def load_keywords_def world_undated_fields
          get_or_def fetch_rss_entries_def SEARCH_TOP_def)
  have n: "next_run world_undated = world_undated\<lparr>output_csv := Table (save_csv [row_undated])\<rparr>"
    by (simp add: next_run_def csv_after_def main_undated)
  have b: "run_entries (next_run world_undated) = [entry_undated]"
    by (simp add: n run_entries_def run_keywords_def load_keywords_def world_undated_fields
          get_or_def fetch_rss_entries_def SEARCH_TOP_def)
  show ?thesis
    by (simp add: main_undated_again save_csv_def map_row_def row_undated_keys w a b)
qed

section \<open>The properties\<close>

subsection \<open>C1\<close>

text \<open>
  Claim C1, as the code has it. An entry whose key is among the seen keys leaves the state
  of the loop as it is: no request for its article, no row. An entry that adds a row was
  not seen before and is seen afterwards, and the loops never forget a key. So the rows a
  run adds have pairwise different keys, and none of them has the key of a row loaded
  from the store. The key is the title, an underscore and the published string. (A key is
  recorded when its entry is accepted, not when it is first met.)
\<close>

theorem dedup_within_run:
  "(entry_key e \<in> seen_keys st \<longrightarrow> process_entry w ks cs st e = st) \<and>
   (rows (process_entry w ks cs st e) \<noteq> rows st \<longrightarrow>
      entry_key e \<notin> seen_keys st \<and> entry_key e \<in> seen_keys (process_entry w ks cs st e)) \<and>
   seen_keys st \<subseteq> seen_keys (foldl (process_entry w ks cs) st es) \<and>
   seen_keys st \<subseteq> seen_keys (foldl (process_keyword w ks cs) st kws) \<and>
   distinct (map row_key (new_rows (main w))) \<and>
   row_key ` set (new_rows (main w)) \<inter> row_key ` set (load_existing_csv (output_csv w)) = {}"
proof -
  have a: "entry_key e \<in> seen_keys st \<Longrightarrow> process_entry w ks cs st e = st"
    by (rule process_entry_seen)
  have b: "rows (process_entry w ks cs st e) \<noteq> rows st \<Longrightarrow>
      entry_key e \<notin> seen_keys st \<and> entry_key e \<in> seen_keys (process_entry w ks cs st e)"
    by (auto simp: process_entry_rows process_entry_seen_keys split: if_splits)
  have c: "seen_keys s \<subseteq> seen_keys (foldl (process_entry w ks cs) s xs)" for s xs
    by (rule foldl_invariant [where P = "\<lambda>t. seen_keys s \<subseteq> seen_keys t"])
       (auto simp: process_entry_seen_keys)
  have "seen_keys s \<subseteq> seen_keys (process_keyword w ks cs s kw)" for s kw
    using c [of "s\<lparr>requests := requests s @ [FeedRequest (build_google_news_rss w kw)]\<rparr>"]
    by (simp add: process_keyword_def Let_def)
  then have d: "seen_keys st \<subseteq> seen_keys (foldl (process_keyword w ks cs) st kws)"
    by (intro foldl_invariant [where P = "\<lambda>t. seen_keys st \<subseteq> seen_keys t"]) auto
  from a b c [of st es] d main_keys [of w] show ?thesis by blast
qed

theorem dedup_within_run_witness:
  "rows state_b \<noteq> rows loop_start \<and>
   entry_key entry_b \<notin> seen_keys loop_start \<and>
   entry_key entry_a \<in> seen_keys state_b \<and>
   process_entry world_two [u ''crime''] [] state_b entry_a = state_b \<and>
   distinct (map row_key (new_rows (main world_two)))"
proof -
  have r: "rows state_b \<noteq> rows loop_start"
    by (simp add: state_b_def step_b loop_start_def)
  from r dedup_within_run [of entry_b loop_start world_two "[u ''crime'']" "[]"]
  have k: "entry_key entry_b \<notin> seen_keys loop_start \<and> entry_key entry_b \<in> seen_keys state_b"
    by (simp add: state_b_def)
  then have "entry_key entry_a \<in> seen_keys state_b" by (simp add: key_ab)
  with dedup_within_run [of entry_a state_b world_two "[u ''crime'']" "[]"]
  have "process_entry world_two [u ''crime''] [] state_b entry_a = state_b" by blast
  with r k dedup_within_run [of entry_a state_b world_two] show ?thesis by (simp add: key_ab)
qed

text \<open>
  Claim C1 as stated fails: of two entries with the same title and published string, the
  first is discarded by the region filter, so its key is not recorded; the second is then
  fetched and kept.
\<close>

theorem dedup_first_entry_counterexample:
  "entry_key entry_a = entry_key entry_b \<and>
   fetched (main world_two) =
     [FeedRequest (build_google_news_rss world_two (u ''crime'')),
      ArticleRequest link_a, ArticleRequest link_b] \<and>
   map r_link (new_rows (main world_two)) = [Str link_b]"
  by (simp add: key_ab main_two row_b_def make_row_def links_ab)

subsection \<open>C2\<close>

text \<open>
  Claim C2. Every row a run adds is the row of an entry of its feeds whose title
  followed by its resolved text (the text of the link, or the summary of the feed when
  that text is empty) mentions \<open>paraiba\<close>, with or without the accent, after
  lowering; an entry whose title and text mention neither adds no row.
\<close>

theorem region_filter:
  "(r \<in> set (new_rows (main w)) \<longrightarrow>
      (\<exists>e n. e \<in> set (run_entries w) \<and>
         r = make_row w (run_keywords w) (run_cities w) (entry_title e) (entry_link e)
               (entry_published e) (article_text_of w e) n \<and>
         mentions_paraiba (lower (entry_title e @ article_text_of w e)))) \<and>
   (\<not> mentions_paraiba (lower (entry_title e' @ article_text_of w e')) \<longrightarrow>
      rows (process_entry w ks cs st e') = rows st)"
proof -
  show ?thesis
    using rows_ok_main [of r w] mentions_without_space
    by (fastforce simp: row_ok_def process_entry_rows)
qed

theorem region_filter_witness:
  "row_b \<in> set (new_rows (main world_two)) \<and>
   (\<exists>e n. e \<in> set (run_entries world_two) \<and>
      row_b = make_row world_two (run_keywords world_two) (run_cities world_two) (entry_title e)
                (entry_link e) (entry_published e) (article_text_of world_two e) n \<and>
      mentions_paraiba (lower (entry_title e @ article_text_of world_two e))) \<and>
   \<not> mentions_paraiba (lower (entry_title entry_a @ article_text_of world_two entry_a)) \<and>
   rows (process_entry world_two [] [] loop_start entry_a) = rows loop_start"
proof -
  have m: "row_b \<in> set (new_rows (main world_two))" by (simp add: main_two)
  have n: "\<not> mentions_paraiba (lower (entry_title entry_a @ article_text_of world_two entry_a))"
    unfolding text_a by code_simp
  from region_filter [of row_b world_two entry_a "[]" "[]" loop_start] m n show ?thesis by blast
qed

subsection \<open>C3\<close>

text \<open>
  Claim C3, as the code has it. The store is written exactly when the run did not fail
  and the loaded rows together with the new rows are not empty; what is written is the
  loaded rows followed by the new rows.
\<close>

theorem commit_condition:
  "(saved (main w) \<noteq> None) =
     (failure (main w) = None \<and>
      (load_existing_csv (output_csv w) \<noteq> [] \<or> new_rows (main w) \<noteq> [])) \<and>
   (saved (main w) \<noteq> None \<longrightarrow>
      saved (main w) = Some (save_csv (load_existing_csv (output_csv w) @ new_rows (main w))))"
  by (cases "kw_file w") (auto simp: main_def load_keywords_def Let_def)

theorem commit_condition_witness:
  "saved (main world_two) \<noteq> None \<and> failure (main world_two) = None \<and>
   new_rows (main world_two) \<noteq> [] \<and>
   saved (main world_two) =
     Some (save_csv (load_existing_csv (output_csv world_two) @ new_rows (main world_two)))"
proof -
  have "saved (main world_two) \<noteq> None" by (simp add: main_two)
  with commit_condition [of world_two] show ?thesis by (simp add: main_two)
qed

text \<open>
  Claim C3 as stated fails: with a stored row and no keyword the run accepts nothing and
  still writes the store.
\<close>

theorem commit_rewrites_counterexample:
  "new_rows (main world_stored) = [] \<and> fetched (main world_stored) = [] \<and>
   saved (main world_stored) = Some [stored_row]"
  by (simp add: main_stored)

subsection \<open>C4\<close>

text \<open>
  Claim C4. The classifier returns one of the five labels, which are pairwise different
  and not empty; the label is the one of the first rule, in the order homicide,
  trafficking, police operation, theft, that has a trigger in the lowered text, and
  \<open>Outro\<close> when none has; a text with a homicide trigger and a theft trigger gets the
  homicide label.
\<close>

theorem classifier_total_priority:
  "classify_by_keywords text keywords
      \<in> {lbl_homicidio, lbl_trafico, lbl_operacao, lbl_roubo, lbl_outro} \<and>
   classify_by_keywords text keywords \<noteq> [] \<and>
   distinct [lbl_homicidio, lbl_trafico, lbl_operacao, lbl_roubo, lbl_outro] \<and>
   classify_by_keywords text keywords = first_match category_rules (lower text) \<and>
   (any_in trig_homicidio (lower text) \<and> any_in trig_roubo (lower text) \<longrightarrow>
      classify_by_keywords text keywords = lbl_homicidio)"
proof -
  have a: "classify_by_keywords text keywords
      \<in> {lbl_homicidio, lbl_trafico, lbl_operacao, lbl_roubo, lbl_outro}"
    by (simp add: classify_by_keywords_def Let_def)
  then have b: "classify_by_keywords text keywords \<noteq> []"
    using labels_nonempty by auto
  have c: "classify_by_keywords text keywords = first_match category_rules (lower text)"
    by (simp add: classify_by_keywords_def first_match_def category_rules_def Let_def)
  have d: "any_in trig_homicidio (lower text) \<Longrightarrow> classify_by_keywords text keywords = lbl_homicidio"
    by (simp add: classify_by_keywords_def Let_def)
  from a b c d labels_distinct show ?thesis by blast
qed

theorem classifier_total_priority_witness:
  "any_in trig_homicidio (lower text_homicida) \<and> any_in trig_roubo (lower text_homicida) \<and>
   classify_by_keywords text_homicida [] = lbl_homicidio \<and>
   classify_by_keywords text_homicida [] = first_match category_rules (lower text_homicida)"
proof -
  have a: "any_in trig_homicidio (lower text_homicida)" by code_simp
  have b: "any_in trig_roubo (lower text_homicida)" by code_simp
  from a b classifier_total_priority [of text_homicida "[]"] show ?thesis by blast
qed

subsection \<open>C5\<close>

text \<open>
  Claim C5. For a text that is empty or has fewer than 30 tokens the summarizer returns
  the text stripped of leading and trailing white space, whatever the summarizer
  capability would do.
\<close>

theorem summarizer_noop:
  "text = [] \<or> length (split text) < 30 \<Longrightarrow>
   simple_summarize lr text sentences_count = strip text"
  by (simp add: simple_summarize_def)

theorem summarizer_noop_witness:
  "length (split text_short) < 30 \<and>
   simple_summarize (\<lambda>t k. None) text_short 3 = u ''Roubo em Patos''"
proof -
  have a: "length (split text_short) < 30" by code_simp
  have b: "strip text_short = u ''Roubo em Patos''" by code_simp
  from a have "text_short = [] \<or> length (split text_short) < 30" by simp
  from summarizer_noop [OF this, of "\<lambda>t k. None" 3] a b show ?thesis by simp
qed

subsection \<open>C6\<close>

text \<open>
  Claim C6. The relevance is the number of positions of the keyword list whose lowered
  keyword occurs in the lowered text: a keyword counts once however often it occurs, the
  score is at most the length of the list and reaches any \<open>n\<close>, and the row carries the
  relevance of its lowered title, a space and its text.
\<close>

theorem relevance_counts_keywords:
  "relevance lower_text keywords =
     card {i. i < length keywords \<and> sublist (lower (keywords ! i)) lower_text} \<and>
   relevance lower_text keywords \<le> length keywords \<and>
   relevance lower_text [k] = (if sublist (lower k) lower_text then 1 else 0) \<and>
   relevance lower_text (replicate n k) = (if sublist (lower k) lower_text then n else 0) \<and>
   r_relevance (make_row w keywords cities title link published article_text now) =
     relevance (lower (title @ u '' '' @ article_text)) keywords"
proof -
  have a: "relevance lower_text keywords =
     card {i. i < length keywords \<and> sublist (lower (keywords ! i)) lower_text}"
    by (simp add: relevance_length length_filter_conv_card)
  have b: "relevance lower_text keywords \<le> length keywords"
    by (simp add: relevance_length)
  have c: "relevance lower_text [k] = (if sublist (lower k) lower_text then 1 else 0)"
    by (simp add: relevance_length)
  have d: "relevance lower_text (replicate n k) = (if sublist (lower k) lower_text then n else 0)"
    by (simp add: relevance_length)
  have e: "r_relevance (make_row w keywords cities title link published article_text now) =
     relevance (lower (title @ u '' '' @ article_text)) keywords"
    by (simp add: make_row_def Let_def)
  from a b c d e show ?thesis by blast
qed

theorem relevance_counts_keywords_witness:
  "relevance (lower text_example) keywords_example = 2 \<and>
   card {i. i < length keywords_example \<and>
            sublist (lower (keywords_example ! i)) (lower text_example)} = 2 \<and>
   relevance (lower text_example) keywords_example \<le> length keywords_example"
proof -
  have a: "relevance (lower text_example) keywords_example = 2" by code_simp
  note t = relevance_counts_keywords [of "lower text_example" keywords_example]
  from t have b: "relevance (lower text_example) keywords_example =
     card {i. i < length keywords_example \<and>
            sublist (lower (keywords_example ! i)) (lower text_example)}" by blast
  from t have c: "relevance (lower text_example) keywords_example \<le> length keywords_example"
    by blast
  from a b c show ?thesis by simp
qed

subsection \<open>C7\<close>

text \<open>
  Claim C7. The cities found are exactly the configured cities whose lowered name
  occurs in the lowered text, each once, in the order of the configuration (of first
  occurrence there, when the configuration repeats a name).
\<close>

theorem extract_cities_order_unique:
  "distinct (extract_cities text cities) \<and>
   set (extract_cities text cities) = {c \<in> set cities. sublist (lower c) (lower text)} \<and>
   subseq (extract_cities text cities) cities \<and>
   extract_cities text cities = filter (\<lambda>c. sublist (lower c) (lower text)) (fromkeys cities) \<and>
   (distinct cities \<longrightarrow> extract_cities text cities = filter (\<lambda>c. sublist (lower c) (lower text)) cities)"
proof -
  let ?P = "\<lambda>c. sublist (lower c) (lower text)"
  have e: "extract_cities text cities = fromkeys (filter ?P cities)"
    by (simp add: extract_cities_def)
  have "subseq (fromkeys (filter ?P cities)) (filter ?P cities)" by (rule subseq_fromkeys)
  moreover have "subseq (filter ?P cities) cities" by simp
  ultimately have "subseq (fromkeys (filter ?P cities)) cities" by (rule subseq_order.order_trans)
  then show ?thesis
    by (auto simp: e distinct_fromkeys set_fromkeys fromkeys_filter fromkeys_distinct)
qed

theorem extract_cities_order_unique_witness:
  "distinct cities_example \<and>
   sublist (lower (cities_example ! 0)) (lower text_cities) \<and>
   sublist (lower (cities_example ! 1)) (lower text_cities) \<and>
   extract_cities text_cities cities_example = cities_example \<and>
   extract_cities text_cities (cities_example @ cities_example) = cities_example"
proof -
  have d: "distinct cities_example" by code_simp
  have a: "sublist (lower (cities_example ! 0)) (lower text_cities)" by code_simp
  have b: "sublist (lower (cities_example ! 1)) (lower text_cities)" by code_simp
  have f: "filter (\<lambda>c. sublist (lower c) (lower text_cities)) cities_example = cities_example"
    using a b by (simp add: cities_example_def)
  have g: "fromkeys (cities_example @ cities_example) = cities_example" by code_simp
  note h = fromkeys_distinct [OF d]
  from extract_cities_order_unique [of text_cities cities_example] d f h
  have "extract_cities text_cities cities_example = cities_example" by simp
  moreover from extract_cities_order_unique [of text_cities "cities_example @ cities_example"] f g
  have "extract_cities text_cities (cities_example @ cities_example) = cities_example" by simp
  ultimately show ?thesis using d a b by simp
qed

subsection \<open>C8\<close>

text \<open>
  Claim C8, as the code has it. A missing configuration file, or one that is not JSON,
  ends the run with the error before any request and without writing the store. A
  document runs; a field it lacks is read as the empty list.
\<close>

theorem config_startup:
  "(kw_file w = NoFile \<longrightarrow>
      main w = \<lparr>failure = Some FileNotFoundError, fetched = [], new_rows = [],
                saved = None, printed = None\<rparr>) \<and>
   (kw_file w = NotJSON \<longrightarrow>
      main w = \<lparr>failure = Some JSONDecodeError, fetched = [], new_rows = [],
                saved = None, printed = None\<rparr>) \<and>
   (kw_file w = Document cfg \<longrightarrow>
      failure (main w) = None \<and>
      main w = main (w\<lparr>kw_file := Document \<lparr>cfg_keywords = Some (get_or (cfg_keywords cfg) []),
                                              cfg_cities = Some (get_or (cfg_cities cfg) [])\<rparr>\<rparr>))"
proof -
  let ?cfg = "\<lparr>cfg_keywords = Some (get_or (cfg_keywords cfg) []),
               cfg_cities = Some (get_or (cfg_cities cfg) [])\<rparr>"
  have a: "kw_file w = NoFile \<Longrightarrow>
      main w = \<lparr>failure = Some FileNotFoundError, fetched = [], new_rows = [],
                saved = None, printed = None\<rparr>"
    by (simp add: main_def load_keywords_def)
  have b: "kw_file w = NotJSON \<Longrightarrow>
      main w = \<lparr>failure = Some JSONDecodeError, fetched = [], new_rows = [],
                saved = None, printed = None\<rparr>"
    by (simp add: main_def load_keywords_def)
  have c: "failure (main w) = None" if "kw_file w = Document cfg"
    using that by (simp add: main_document Let_def)
  have d: "main w = main (w\<lparr>kw_file := Document ?cfg\<rparr>)" if "kw_file w = Document cfg"
  proof -
    have "kw_file (w\<lparr>kw_file := Document ?cfg\<rparr>) = Document ?cfg" by simp
    then show ?thesis
      using that
      by (simp add: main_document [of w cfg] main_document [of _ ?cfg] process_keyword_kw_file
            get_or_def)
  qed
  from a b c d show ?thesis by blast
qed

theorem config_startup_witness:
  "kw_file world_no_file = NoFile \<and>
   main world_no_file = \<lparr>failure = Some FileNotFoundError, fetched = [], new_rows = [],
                          saved = None, printed = None\<rparr> \<and>
   kw_file world_not_json = NotJSON \<and>
   main world_not_json = \<lparr>failure = Some JSONDecodeError, fetched = [], new_rows = [],
                           saved = None, printed = None\<rparr> \<and>
   kw_file world_no_fields = Document \<lparr>cfg_keywords = None, cfg_cities = None\<rparr> \<and>
   failure (main world_no_fields) = None \<and>
   main world_no_fields =
     main (world_no_fields\<lparr>kw_file := Document \<lparr>cfg_keywords = Some [], cfg_cities = Some []\<rparr>\<rparr>)"
proof -
  have a: "kw_file world_no_file = NoFile" by (simp add: world_no_file_def)
  have b: "kw_file world_not_json = NotJSON" by (simp add: world_not_json_def)
  have c: "kw_file world_no_fields = Document \<lparr>cfg_keywords = None, cfg_cities = None\<rparr>"
    by (simp add: world_no_fields_def)
  have g: "get_or (cfg_keywords \<lparr>cfg_keywords = None, cfg_cities = None\<rparr>) [] = []"
    "get_or (cfg_cities \<lparr>cfg_keywords = None, cfg_cities = None\<rparr>) [] = []"
    by (simp_all add: get_or_def)
  from a config_startup [of world_no_file]
  have t1: "main world_no_file = \<lparr>failure = Some FileNotFoundError, fetched = [], new_rows = [],
                          saved = None, printed = None\<rparr>" by blast
  from b config_startup [of world_not_json]
  have t2: "main world_not_json = \<lparr>failure = Some JSONDecodeError, fetched = [], new_rows = [],
                           saved = None, printed = None\<rparr>" by blast
  from c config_startup [of world_no_fields "\<lparr>cfg_keywords = None, cfg_cities = None\<rparr>", unfolded g]
  have t3: "failure (main world_no_fields) = None \<and>
   main world_no_fields =
     main (world_no_fields\<lparr>kw_file := Document \<lparr>cfg_keywords = Some [], cfg_cities = Some []\<rparr>\<rparr>)"
    by blast
  from a b c t1 t2 t3 show ?thesis by blast
qed

text \<open>
  Claim C8 as stated fails: a document with neither \<open>keywords\<close> nor \<open>cities\<close> is not
  fatal; the run ends normally, having made no request.
\<close>

theorem config_missing_fields_counterexample:
  "kw_file world_no_fields = Document \<lparr>cfg_keywords = None, cfg_cities = None\<rparr> \<and>
   failure (main world_no_fields) = None \<and> fetched (main world_no_fields) = [] \<and>
   saved (main world_no_fields) = None \<and> printed (main world_no_fields) = Some NoNewRecords"
  by (simp add: main_no_fields) (simp add: world_no_fields_def)

subsection \<open>C9\<close>

text \<open>
  Claim C9, as the code has it. Every name has at least two tokens, its first token is
  title-cased in the sense of \<open>str.istitle\<close> and longer than two characters, every
  token is title-cased in that sense, and its tokens are consecutive words of the text.
\<close>

theorem names_shape:
  "n \<in> set (extract_names_heuristic text) \<Longrightarrow>
     2 \<le> length (split n) \<and> istitle (hd (split n)) \<and> 2 < length (hd (split n)) \<and>
     (\<forall>t\<in>set (split n). istitle t) \<and> sublist (split n) (split text)"
proof -
  assume "n \<in> set (extract_names_heuristic text)"
  then have "n \<in> set (names_loop (split text))"
    by (simp add: extract_names_heuristic_def set_fromkeys)
  then obtain w run where
    h: "n = join (u '' '') (w # run)" "run \<noteq> []" "istitle w" "2 < length w"
       "\<forall>p\<in>set run. istitle p" "sublist (w # run) (split text)"
    using names_loop_shape by blast
  from h(6) have "set (w # run) \<subseteq> set (split text)" by (rule set_mono_sublist)
  then have "\<forall>p\<in>set (w # run). p \<noteq> [] \<and> (\<forall>c\<in>set p. \<not> isspace c)"
    using split_tokens by blast
  then have s: "split n = w # run" unfolding h(1) by (rule split_join)
  from h(2) have "2 \<le> length (w # run)" by (cases run) auto
  with h s show ?thesis by simp
qed

theorem names_shape_witness:
  "u ''Vice-Prefeito Jo'' \<in> set (extract_names_heuristic text_names) \<and>
   2 \<le> length (split (u ''Vice-Prefeito Jo'')) \<and>
   istitle (hd (split (u ''Vice-Prefeito Jo''))) \<and>
   2 < length (hd (split (u ''Vice-Prefeito Jo''))) \<and>
   sublist (split (u ''Vice-Prefeito Jo'')) (split text_names)"
proof -
  have "u ''Vice-Prefeito Jo'' \<in> set (extract_names_heuristic text_names)"
    by (simp add: names_of_text_names)
  from names_shape [OF this] this show ?thesis by blast
qed

text \<open>
  Claim C9 as stated fails: the tokens after the first are not checked for their length,
  and \<open>str.istitle\<close> accepts more than a capital followed by lowercase letters.
\<close>

theorem names_token_counterexample:
  "extract_names_heuristic text_names = [u ''Vice-Prefeito Jo''] \<and>
   split (u ''Vice-Prefeito Jo'') = [u ''Vice-Prefeito'', u ''Jo''] \<and>
   \<not> qualifying_token (u ''Vice-Prefeito'') \<and> \<not> qualifying_token (u ''Jo'') \<and>
   length (u ''Jo'') = 2"
proof -
  have a: "split (u ''Vice-Prefeito Jo'') = [u ''Vice-Prefeito'', u ''Jo'']"
    using split_text_names by (simp add: text_names_def)
  have b: "\<not> qualifying_token (u ''Vice-Prefeito'')" by code_simp
  have c: "\<not> qualifying_token (u ''Jo'')" by code_simp
  have d: "length (u ''Jo'') = 2" by (simp add: u_def)
  from names_of_text_names a b c d show ?thesis by blast
qed

subsection \<open>C10\<close>

text \<open>
  Claim C10. The label does not depend on the keyword list.
\<close>

theorem classifier_ignores_keywords: "classify_by_keywords text k1 = classify_by_keywords text k2"
  by (simp add: classify_by_keywords_def)

theorem classifier_ignores_keywords_witness:
  "classify_by_keywords text_homicida [] = classify_by_keywords text_homicida keywords_example \<and>
   classify_by_keywords text_homicida keywords_example = lbl_homicidio"
proof -
  have "classify_by_keywords text_homicida [] = lbl_homicidio" by code_simp
  with classifier_ignores_keywords [of text_homicida "[]" keywords_example] show ?thesis by simp
qed

end
